theory Spec2Isabelle
  imports Main
begin

section \<open>The constant catalogs\<close>

text \<open>
  Each exported object literal is a finite mapping from key to string token. JavaScript
  enumerates string keys in insertion order, so a catalog is an association list in the
  order of the literal.
\<close>

type_synonym catalog = "(string \<times> string) list"

definition PageNames :: catalog where
  "PageNames =
    [(''MANAGE_CONTENT_PAGE'', ''MANAGE_CONTENT_PAGE''),
     (''MANAGE_PERMISSIONS_PAGE'', ''MANAGE_PERMISSIONS_PAGE''),
     (''USER_PERMISSIONS_PAGE'', ''USER_PERMISSIONS_PAGE'')]"

definition ContentWizardPages :: catalog where
  "ContentWizardPages =
    [(''CHOOSE_IMPORT_SOURCE'', ''CHOOSE_IMPORT_SOURCE''),
     (''EXPORT'', ''EXPORT''),
     (''IMPORT_LOCAL'', ''IMPORT_LOCAL''),
     (''IMPORT_NETWORK'', ''IMPORT_NETWORK''),
     (''AVAILABLE_CHANNELS'', ''AVAILABLE_CHANNELS'')]"

definition TaskTypes :: catalog where
  "TaskTypes =
    [(''REMOTE_IMPORT'', ''remoteimport''),
     (''LOCAL_IMPORT'', ''localimport''),
     (''LOCAL_EXPORT'', ''localexport''),
     (''DELETE_CHANNEL'', ''deletechannel'')]"

definition TaskStatuses :: catalog where
  "TaskStatuses =
    [(''IN_PROGRESS'', ''INPROGRESS''),
     (''COMPLETED'', ''COMPLETED''),
     (''FAILED'', ''FAILED''),
     (''PENDING'', ''PENDING''),
     (''RUNNING'', ''RUNNING''),
     (''QUEUED'', ''QUEUED''),
     (''SCHEDULED'', ''SCHEDULED'')]"

definition TransferTypes :: catalog where
  "TransferTypes =
    [(''LOCALIMPORT'', ''localimport''),
     (''REMOTEIMPORT'', ''remoteimport''),
     (''LOCALEXPORT'', ''localexport'')]"

text \<open>The keys and the tokens of a catalog, in enumeration order.\<close>

definition keys_of :: "catalog \<Rightarrow> string list" where
  "keys_of c = map fst c"

definition values_of :: "catalog \<Rightarrow> string list" where
  "values_of c = map snd c"

text \<open>
  Two string normalisations, used only to describe how a token is spelt relative to its
  key: dropping the underscores, and lower-casing the letters \<open>A\<close>..\<open>Z\<close>.
\<close>

definition drop_underscores :: "string \<Rightarrow> string" where
  "drop_underscores s = filter (\<lambda>c. c \<noteq> CHR ''_'') s"

definition lower_char :: "char \<Rightarrow> char" where
  "lower_char c =
     (case map_of (zip ''ABCDEFGHIJKLMNOPQRSTUVWXYZ'' ''abcdefghijklmnopqrstuvwxyz'') c of
        Some l \<Rightarrow> l
      | None \<Rightarrow> c)"

definition lower :: "string \<Rightarrow> string" where
  "lower s = map lower_char s"


section \<open>Values, objects and the store\<close>

text \<open>
  The accessors read a state tree owned by the caller. Objects and arrays are reference
  values in JavaScript: a value is either a primitive or the address of a cell of the
  store. Numbers are integers or \<open>NaN\<close> (only equality and truthiness of a number are
  ever looked at).
\<close>

type_synonym addr = nat

datatype val =
    VUndefined
  | VNull
  | VBool bool
  | VNum int
  | VNaN
  | VStr string
  | VRef addr

text \<open>
  A cell holds a plain object (its own properties; the first binding of a name counts)
  or an array (its elements, a hole being \<open>VUndefined\<close>, which is how \<open>find\<close> visits it).
\<close>

datatype obj =
    Obj "(string \<times> val) list"
  | Arr "val list"

type_synonym heap = "obj list"

definition lookup :: "heap \<Rightarrow> addr \<Rightarrow> obj option" where
  "lookup h a = (if a < length h then Some (h ! a) else None)"

datatype error = TypeError

text \<open>
  A computation runs on the store and either throws or returns a value together with the
  store it leaves behind.
\<close>

type_synonym 'a js = "heap \<Rightarrow> error + ('a \<times> heap)"

definition ret :: "'a \<Rightarrow> 'a js" where
  "ret x = (\<lambda>h. Inr (x, h))"

definition bind :: "'a js \<Rightarrow> ('a \<Rightarrow> 'b js) \<Rightarrow> 'b js" where
  "bind m f = (\<lambda>h. case m h of Inl e \<Rightarrow> Inl e | Inr (x, h') \<Rightarrow> f x h')"

text \<open>
  \<open>v.p\<close> for a property name \<open>p\<close> that no built-in prototype defines (all the names the
  accessors read but \<open>find\<close>): reading a property of \<open>undefined\<close> or \<open>null\<close> throws a
  TypeError; an object yields its own property, or \<open>undefined\<close> when it has none of that
  name; arrays and primitives yield \<open>undefined\<close>. The store is only read. Properties are
  plain data properties: the state tree has no getters and is no proxy.
\<close>

definition get_prop :: "val \<Rightarrow> string \<Rightarrow> val js" where
  "get_prop v p = (\<lambda>h.
     case v of
       VUndefined \<Rightarrow> Inl TypeError
     | VNull \<Rightarrow> Inl TypeError
     | VRef a \<Rightarrow>
         (case lookup h a of
            Some (Obj fs) \<Rightarrow>
              (case map_of fs p of Some x \<Rightarrow> Inr (x, h) | None \<Rightarrow> Inr (VUndefined, h))
          | _ \<Rightarrow> Inr (VUndefined, h))
     | _ \<Rightarrow> Inr (VUndefined, h))"

text \<open>
  \<open>a === b\<close>: no conversion; \<open>NaN\<close> equals nothing, itself included; references are
  equal when they are the same address.
\<close>

definition strict_eq :: "val \<Rightarrow> val \<Rightarrow> bool" where
  "strict_eq a b = (a \<noteq> VNaN \<and> b \<noteq> VNaN \<and> a = b)"

text \<open>\<open>ToBoolean\<close>, as the conditional operator and \<open>find\<close> apply it.\<close>

fun truthy :: "val \<Rightarrow> bool" where
  "truthy VUndefined = False"
| "truthy VNull = False"
| "truthy (VBool b) = b"
| "truthy (VNum n) = (n \<noteq> 0)"
| "truthy VNaN = False"
| "truthy (VStr s) = (s \<noteq> [])"
| "truthy (VRef a) = True"

text \<open>
  \<open>Array.prototype.find\<close>: the elements are visited in index order, the first one for
  which the callback's result is truthy is returned, \<open>undefined\<close> when there is none. A
  callback that throws ends the scan with its error.
\<close>

fun find_loop :: "(val \<Rightarrow> val js) \<Rightarrow> val list \<Rightarrow> val js" where
  "find_loop f [] h = Inr (VUndefined, h)"
| "find_loop f (x # xs) h =
     (case f x h of
        Inl e \<Rightarrow> Inl e
      | Inr (r, h') \<Rightarrow> if truthy r then Inr (x, h') else find_loop f xs h')"

text \<open>
  \<open>v.find(f)\<close>: reading \<open>find\<close> off \<open>undefined\<close> or \<open>null\<close> throws; off anything that is
  not an array it yields \<open>undefined\<close>, and calling that throws as well.
\<close>

definition call_find :: "val \<Rightarrow> (val \<Rightarrow> val js) \<Rightarrow> val js" where
  "call_find v f = (\<lambda>h.
     case v of
       VRef a \<Rightarrow>
         (case lookup h a of
            Some (Arr xs) \<Rightarrow> find_loop f xs h
          | _ \<Rightarrow> Inl TypeError)
     | _ \<Rightarrow> Inl TypeError)"

text \<open>The array literal \<open>[...]\<close> allocates a fresh cell and yields its address.\<close>

definition new_array :: "val list \<Rightarrow> val js" where
  "new_array xs = (\<lambda>h. Inr (VRef (length h), h @ [Arr xs]))"


section \<open>The state accessors\<close>

definition wizardState :: "val \<Rightarrow> val js" where
  "wizardState state =
     bind (get_prop state ''pageState'') (\<lambda>pageState. get_prop pageState ''wizardState'')"

definition selectedNodes :: "val \<Rightarrow> val js" where
  "selectedNodes state =
     bind (wizardState state) (\<lambda>w.
     bind (get_prop w ''selectedItems'') (\<lambda>selectedItems.
     get_prop selectedItems ''nodes''))"

definition availableChannels :: "val \<Rightarrow> val js" where
  "availableChannels state =
     bind (wizardState state) (\<lambda>w. get_prop w ''availableChannels'')"

text \<open>
  The inner function of \<open>driveChannelList\<close> and its callback. The inner function closes
  over \<open>state\<close> and reads the store when it is called, not when it is made.
\<close>

definition id_equals :: "val \<Rightarrow> val \<Rightarrow> val js" where
  \<comment> \<open>the arrow function \<open>d => d.id === driveId\<close>\<close>
  "id_equals driveId d = bind (get_prop d ''id'') (\<lambda>i. ret (VBool (strict_eq i driveId)))"

definition getListByDriveId :: "val \<Rightarrow> val \<Rightarrow> val js" where
  "getListByDriveId state driveId =
     bind (wizardState state) (\<lambda>w.
     bind (get_prop w ''driveList'') (\<lambda>driveList.
     bind (call_find driveList (id_equals driveId)) (\<lambda>match.
     if truthy match
     then bind (get_prop match ''metadata'') (\<lambda>metadata. get_prop metadata ''channels'')
     else new_array [])))"

text \<open>
  \<open>driveChannelList(state)\<close> only builds the closure, which evaluates nothing: the result
  is the function that awaits the drive identifier.
\<close>

definition driveChannelList :: "val \<Rightarrow> val \<Rightarrow> val js" where
  "driveChannelList state = getListByDriveId state"

definition installedChannelList :: "val \<Rightarrow> val js" where
  "installedChannelList state =
     bind (wizardState state) (\<lambda>w. get_prop w ''channelList'')"


section \<open>Vocabulary of the properties\<close>

text \<open>
  \<open>has_field h v p x\<close>: in store \<open>h\<close>, the value \<open>v\<close> is an object whose own property \<open>p\<close>
  exists and holds \<open>x\<close>.
\<close>

definition has_field :: "heap \<Rightarrow> val \<Rightarrow> string \<Rightarrow> val \<Rightarrow> bool" where
  "has_field h v p x =
     (case v of
        VRef a \<Rightarrow> (case lookup h a of Some (Obj fs) \<Rightarrow> map_of fs p = Some x | _ \<Rightarrow> False)
      | _ \<Rightarrow> False)"

text \<open>An entry of a list that is an object (a reference), not a primitive.\<close>

fun is_ref :: "val \<Rightarrow> bool" where
  "is_ref (VRef a) = True"
| "is_ref _ = False"

text \<open>
  The lookup as the specification words it: the first entry, in list order, whose \<open>id\<close>
  equals the drive identifier.
\<close>

definition has_id :: "heap \<Rightarrow> val \<Rightarrow> val \<Rightarrow> bool" where
  "has_id h driveId d =
     (case get_prop d ''id'' h of Inr (i, _) \<Rightarrow> strict_eq i driveId | Inl _ \<Rightarrow> False)"

definition first_match :: "heap \<Rightarrow> val \<Rightarrow> val list \<Rightarrow> val option" where
  "first_match h driveId ds = List.find (has_id h driveId) ds"

text \<open>\<open>m.metadata.channels\<close>, read off an entry \<open>m\<close>.\<close>

definition channels_of :: "val \<Rightarrow> val js" where
  "channels_of m = bind (get_prop m ''metadata'') (\<lambda>metadata. get_prop metadata ''channels'')"

text \<open>
  The initialiser of \<open>match\<close> in the inner function,
  \<open>wizardState(state).driveList.find(d => d.id === driveId)\<close>, on its own.
\<close>

definition match_of :: "val \<Rightarrow> val \<Rightarrow> val js" where
  "match_of state driveId =
     bind (wizardState state) (\<lambda>w.
     bind (get_prop w ''driveList'') (\<lambda>driveList.
     call_find driveList (id_equals driveId)))"

text \<open>A value that is an array without elements, and an outcome that returns one.\<close>

definition is_empty_seq :: "heap \<Rightarrow> val \<Rightarrow> bool" where
  "is_empty_seq h v = (case v of VRef a \<Rightarrow> lookup h a = Some (Arr []) | _ \<Rightarrow> False)"

definition returns_empty :: "error + val \<times> heap \<Rightarrow> bool" where
  "returns_empty r = (case r of Inr (v, h') \<Rightarrow> is_empty_seq h' v | Inl e \<Rightarrow> False)"

text \<open>
  A store in which every reference held by a cell points at a cell, and a value that
  lives in it. Every store a JavaScript program can build is of this kind.
\<close>

fun valid :: "heap \<Rightarrow> val \<Rightarrow> bool" where
  "valid h (VRef a) = (a < length h)"
| "valid h _ = True"

fun obj_vals :: "obj \<Rightarrow> val list" where
  "obj_vals (Obj fs) = map snd fs"
| "obj_vals (Arr xs) = xs"

definition heap_ok :: "heap \<Rightarrow> bool" where
  "heap_ok h = list_all (\<lambda>c. list_all (valid h) (obj_vals c)) h"

text \<open>
  What a computation does to the store it runs on: \<open>unchanged\<close>, it leaves the very same
  store; \<open>preserved\<close>, every cell that was there is still there with the same content
  (new cells may have been allocated behind them).
\<close>

definition unchanged :: "'a js \<Rightarrow> heap \<Rightarrow> bool" where
  "unchanged m h = (case m h of Inl e \<Rightarrow> True | Inr (x, h') \<Rightarrow> h' = h)"

definition preserved :: "'a js \<Rightarrow> heap \<Rightarrow> bool" where
  "preserved m h = (case m h of Inl e \<Rightarrow> True | Inr (x, h') \<Rightarrow> take (length h) h' = h)"

text \<open>
  Two outcomes are the same when both throw the same error, or both return the same
  value, or both return an array without elements.
\<close>

definition same_outcome :: "error + val \<times> heap \<Rightarrow> error + val \<times> heap \<Rightarrow> bool" where
  "same_outcome r1 r2 =
     (case r1 of
        Inl e1 \<Rightarrow> (case r2 of Inl e2 \<Rightarrow> e1 = e2 | Inr _ \<Rightarrow> False)
      | Inr (v1, h1) \<Rightarrow>
          (case r2 of
             Inl _ \<Rightarrow> False
           | Inr (v2, h2) \<Rightarrow> v1 = v2 \<or> (is_empty_seq h1 v1 \<and> is_empty_seq h2 v2)))"

text \<open>
  A second invocation, on the store the first one left, has the same outcome as the
  first.
\<close>

definition repeatable :: "val js \<Rightarrow> heap \<Rightarrow> bool" where
  "repeatable m h =
     (case m h of Inl e \<Rightarrow> True | Inr (x, h') \<Rightarrow> same_outcome (m h) (m h'))"

text \<open>
  The ways a property can be missing: the value read from is \<open>undefined\<close> or \<open>null\<close>
  (\<open>nullish\<close>), or it is a value that can be read from but has no own property of that
  name (\<open>lacks_field\<close>). Together with \<open>has_field\<close> these cover every value.
\<close>

fun nullish :: "val \<Rightarrow> bool" where
  "nullish VUndefined = True"
| "nullish VNull = True"
| "nullish _ = False"

definition lacks_field :: "heap \<Rightarrow> val \<Rightarrow> string \<Rightarrow> bool" where
  "lacks_field h v p =
     (case v of
        VUndefined \<Rightarrow> False
      | VNull \<Rightarrow> False
      | VRef a \<Rightarrow> (case lookup h a of Some (Obj fs) \<Rightarrow> map_of fs p = None | _ \<Rightarrow> True)
      | _ \<Rightarrow> True)"

text \<open>
  A subtree of the state tree, given by the cells it occupies: \<open>refs_in S v\<close>, the value
  \<open>v\<close> is a primitive or a reference to a cell of \<open>S\<close>; \<open>closed_in h S\<close>, every cell of
  \<open>S\<close> exists in \<open>h\<close> and holds only such values, so that nothing outside \<open>S\<close> can be
  reached from inside; \<open>agree_on h1 h2 S\<close>, two stores hold the same in every cell of \<open>S\<close>.
\<close>

definition refs_in :: "addr list \<Rightarrow> val \<Rightarrow> bool" where
  "refs_in S v = (case v of VRef a \<Rightarrow> a \<in> set S | _ \<Rightarrow> True)"

definition closed_in :: "heap \<Rightarrow> addr list \<Rightarrow> bool" where
  "closed_in h S = list_all (\<lambda>a. a < length h \<and> list_all (refs_in S) (obj_vals (h ! a))) S"

definition agree_on :: "heap \<Rightarrow> heap \<Rightarrow> addr list \<Rightarrow> bool" where
  "agree_on h1 h2 S = list_all (\<lambda>a. lookup h1 a = lookup h2 a) S"

text \<open>
  The result of an outcome, without the store: the error thrown or the value returned;
  and an outcome whose value, if any, lies in the subtree.
\<close>

definition result_of :: "error + val \<times> heap \<Rightarrow> error + val" where
  "result_of r = (case r of Inl e \<Rightarrow> Inl e | Inr (v, h') \<Rightarrow> Inr v)"

definition result_in :: "addr list \<Rightarrow> error + val \<times> heap \<Rightarrow> bool" where
  "result_in S r = (case r of Inl e \<Rightarrow> True | Inr (v, h') \<Rightarrow> refs_in S v)"

text \<open>
  A computation that reads only the subtree: run on the second store it throws the same
  error or returns the same value as on the first, a value of the subtree, and writes
  to neither.
\<close>

definition transfers :: "addr list \<Rightarrow> heap \<Rightarrow> heap \<Rightarrow> val js \<Rightarrow> bool" where
  "transfers S h1 h2 m =
     (case m h1 of
        Inl e \<Rightarrow> m h2 = Inl e
      | Inr (x, h') \<Rightarrow> h' = h1 \<and> refs_in S x \<and> m h2 = Inr (x, h2))"

text \<open>
  The state tree of the scenarios of the specification, laid out in a store: cell 0 is
  the root, cell 2 the wizard state, cell 3 the drive list with the drives \<open>a\<close> (cell 4,
  channels \<open>[x]\<close>) and \<open>b\<close> (cell 6, channels \<open>[y, z]\<close>) and cell 9 the selected nodes.
  Added to the scenarios: a third drive \<open>e\<close> (cell 14) whose channels are an array
  without elements, and cell 15, a second root that shares the page state of the first.
\<close>

definition example_heap :: heap where
  "example_heap =
    [Obj [(''pageState'', VRef 1), (''core'', VNum 1)],
     Obj [(''wizardState'', VRef 2)],
     Obj [(''driveList'', VRef 3), (''selectedItems'', VRef 8),
          (''availableChannels'', VRef 12), (''channelList'', VRef 13)],
     Arr [VRef 4, VRef 6, VRef 14],
     Obj [(''id'', VStr ''a''), (''metadata'', VRef 5)],
     Obj [(''channels'', VRef 10)],
     Obj [(''id'', VStr ''b''), (''metadata'', VRef 7)],
     Obj [(''channels'', VRef 11)],
     Obj [(''nodes'', VRef 9)],
     Arr [VStr ''n1'', VStr ''n2''],
     Arr [VStr ''x''],
     Arr [VStr ''y'', VStr ''z''],
     Arr [VStr ''c1''],
     Arr [VStr ''c2'', VStr ''c3''],
     Obj [(''id'', VStr ''e''), (''metadata'', VRef 16)],
     Obj [(''pageState'', VRef 1), (''core'', VNum 2)],
     Obj [(''channels'', VRef 17)],
     Arr []]"

text \<open>
  A second snapshot of that state tree: the same store but for the \<open>core\<close> field of the
  root; and the cells the wizard state occupies in both.
\<close>

definition example_heap2 :: heap where
  "example_heap2 = example_heap [0 := Obj [(''pageState'', VRef 1), (''core'', VNum 7)]]"

definition wizard_cells :: "addr list" where
  "wizard_cells = [2, 3, 4, 5, 6, 7, 8, 9, 10, 11, 12, 13, 14, 16, 17]"

text \<open>
  A store whose root has a page state without a \<open>wizardState\<close> property (the page state
  of a page other than the wizard), and in cell 2 a root whose page state is \<open>null\<close>.
\<close>

definition bare_heap :: heap where
  "bare_heap =
    [Obj [(''pageState'', VRef 1)],
     Obj [(''pageName'', VStr ''MANAGE_CONTENT_PAGE'')],
     Obj [(''pageState'', VNull)]]"


section \<open>The constant catalogs: properties\<close>

text \<open>
  C1, as the specification states it: in each of the five catalogs every value is its
  key's own name. The catalog \<open>TaskTypes\<close> maps the key \<open>REMOTE_IMPORT\<close> to the token
  \<open>remoteimport\<close>, which is not the key's name.
\<close>

theorem catalog_value_differs_from_key:
  "(''REMOTE_IMPORT'', ''remoteimport'') \<in> set TaskTypes
   \<and> ''remoteimport'' \<noteq> ''REMOTE_IMPORT''"
  by (simp add: TaskTypes_def)

text \<open>
  C1, amended: in \<open>PageNames\<close> and \<open>ContentWizardPages\<close> every value is its key's own
  name; in \<open>TaskStatuses\<close> every value is its key's name without the underscores (so
  all but \<open>IN_PROGRESS\<close> are the key's name itself); in \<open>TaskTypes\<close> every value is its
  key's name in lower case without the underscores; in \<open>TransferTypes\<close> every value is
  its key's name in lower case.
\<close>

theorem catalog_values_spell_their_keys:
  "values_of PageNames = keys_of PageNames
   \<and> values_of ContentWizardPages = keys_of ContentWizardPages
   \<and> values_of TaskStatuses = map drop_underscores (keys_of TaskStatuses)
   \<and> filter (\<lambda>(k, v). v \<noteq> k) TaskStatuses = [(''IN_PROGRESS'', ''INPROGRESS'')]
   \<and> values_of TaskTypes = map (lower \<circ> drop_underscores) (keys_of TaskTypes)
   \<and> values_of TransferTypes = map lower (keys_of TransferTypes)"
  by (simp add: PageNames_def ContentWizardPages_def TaskStatuses_def TaskTypes_def
      TransferTypes_def values_of_def keys_of_def drop_underscores_def lower_def
      lower_char_def)

text \<open>
  C5: every value of \<open>TransferTypes\<close> is a value of \<open>TaskTypes\<close>, and the values of
  \<open>TaskTypes\<close> that are no value of \<open>TransferTypes\<close> are exactly one, the value of the
  key \<open>DELETE_CHANNEL\<close>.
\<close>

theorem transfer_types_within_task_types:
  "set (values_of TransferTypes) \<subseteq> set (values_of TaskTypes)
   \<and> map_of TaskTypes ''DELETE_CHANNEL'' = Some ''deletechannel''
   \<and> set (values_of TaskTypes) - set (values_of TransferTypes) = {''deletechannel''}"
  by (auto simp add: TaskTypes_def TransferTypes_def values_of_def)


section \<open>The state accessors: properties\<close>

subsection \<open>Reading properties\<close>


lemma bind_Inr: "m h = Inr (x, h') \<Longrightarrow> bind m f h = f x h'"
  by (simp add: bind_def)

lemma get_prop_field: "has_field h v p x \<Longrightarrow> get_prop v p h = Inr (x, h)"
  by (auto simp: has_field_def get_prop_def split: val.splits option.splits obj.splits)

lemma get_prop_store: "get_prop v p h = Inr (x, h') \<Longrightarrow> h' = h"
  by (auto simp: get_prop_def split: val.splits option.splits obj.splits)

lemma get_prop_ref: "\<exists>x. get_prop (VRef a) p h = Inr (x, h)"
  by (auto simp: get_prop_def split: option.splits obj.splits)

lemma wizardState_field:
  "has_field h state ''pageState'' ps \<Longrightarrow> has_field h ps ''wizardState'' w \<Longrightarrow>
   wizardState state h = Inr (w, h)"
  by (simp add: wizardState_def bind_Inr get_prop_field)

lemma get_prop_lacks: "lacks_field h v p \<Longrightarrow> get_prop v p h = Inr (VUndefined, h)"
  by (auto simp: lacks_field_def get_prop_def split: val.splits option.splits obj.splits)

lemma get_prop_nullish: "nullish v \<Longrightarrow> get_prop v p h = Inl TypeError"
  by (cases v) (simp_all add: get_prop_def)

lemma field_cases:
  "nullish v \<or> lacks_field h v p \<or> (\<exists>x. has_field h v p x)"
  by (cases v) (auto simp: lacks_field_def has_field_def split: option.splits obj.splits)

lemma wizardState_store: "wizardState state h = Inr (w, h') \<Longrightarrow> h' = h"
  by (auto simp: wizardState_def bind_def split: sum.splits dest: get_prop_store)

lemma id_equals_ref:
  "id_equals driveId (VRef a) h = Inr (VBool (has_id h driveId (VRef a)), h)"
  using get_prop_ref [of a "''id''" h]
  by (auto simp: id_equals_def has_id_def bind_def ret_def)

lemma find_loop_first_match:
  "list_all is_ref ds \<Longrightarrow>
   find_loop (id_equals driveId) ds h =
     Inr (case first_match h driveId ds of Some m \<Rightarrow> m | None \<Rightarrow> VUndefined, h)"
proof (induction ds)
  case Nil
  then show ?case by (simp add: first_match_def)
next
  case (Cons d ds)
  then obtain a where d: "d = VRef a" by (cases d) auto
  from Cons show ?case
    by (simp add: d id_equals_ref first_match_def)
qed

lemma first_match_is_ref:
  "list_all is_ref ds \<Longrightarrow> first_match h driveId ds = Some m \<Longrightarrow> is_ref m"
  by (auto simp: first_match_def find_Some_iff list_all_iff)

lemma call_find_first_match:
  "lookup h a = Some (Arr ds) \<Longrightarrow> list_all is_ref ds \<Longrightarrow>
   call_find (VRef a) (id_equals driveId) h =
     Inr (case first_match h driveId ds of Some m \<Rightarrow> m | None \<Rightarrow> VUndefined, h)"
  by (simp add: call_find_def find_loop_first_match)

lemma closure_found:
  assumes "has_field h state ''pageState'' ps" and "has_field h ps ''wizardState'' w"
    and "has_field h w ''driveList'' (VRef a)" and "lookup h a = Some (Arr ds)"
    and "list_all is_ref ds" and "first_match h driveId ds = Some m"
  shows "getListByDriveId state driveId h = channels_of m h"
proof -
  from assms(5,6) obtain b where "m = VRef b"
    using first_match_is_ref [of ds h driveId m] by (cases m) auto
  then show ?thesis
    using assms
    by (simp add: getListByDriveId_def bind_Inr wizardState_field get_prop_field
        call_find_first_match channels_of_def)
qed

lemma closure_not_found:
  assumes "has_field h state ''pageState'' ps" and "has_field h ps ''wizardState'' w"
    and "has_field h w ''driveList'' (VRef a)" and "lookup h a = Some (Arr ds)"
    and "list_all is_ref ds" and "first_match h driveId ds = None"
  shows "getListByDriveId state driveId h = Inr (VRef (length h), h @ [Arr []])"
  using assms
  by (simp add: getListByDriveId_def bind_Inr wizardState_field get_prop_field
      call_find_first_match new_array_def)


subsection \<open>The pass-through accessors\<close>

text \<open>
  C6, as the specification states it: when \<open>state.pageState.wizardState\<close> is absent,
  \<open>wizardState(state)\<close> ends with an access failure of the host. In \<open>bare_heap\<close> the
  page state of the root is an object that has no \<open>wizardState\<close> property: the host
  throws nothing on reading it, and the accessor returns \<open>undefined\<close>.
\<close>

theorem wizardState_absent_without_failure:
  "has_field bare_heap (VRef 0) ''pageState'' (VRef 1)
   \<and> lacks_field bare_heap (VRef 1) ''wizardState''
   \<and> wizardState (VRef 0) bare_heap = Inr (VUndefined, bare_heap)
   \<and> wizardState (VRef 0) bare_heap \<noteq> Inl TypeError"
  by (simp add: bare_heap_def has_field_def lacks_field_def lookup_def wizardState_def
      bind_def get_prop_def)

text \<open>
  C6, amended: when \<open>state.pageState.wizardState\<close> exists, \<open>wizardState(state)\<close> returns
  the value of that field, the store untouched, and nothing is thrown. When the page
  state exists and can be read from but has no \<open>wizardState\<close> property, the accessor
  returns \<open>undefined\<close> and nothing is thrown. When the page state is \<open>undefined\<close> or
  \<open>null\<close>, be it a property holding \<open>null\<close>, a root without \<open>pageState\<close> or a root that is
  itself \<open>undefined\<close> or \<open>null\<close>, the accessor throws the host's TypeError; and whatever
  error a property read of the path throws is the accessor's outcome, unchanged.
\<close>

theorem wizardState_outcome_by_cases:
  "(has_field h state ''pageState'' ps \<and> has_field h ps ''wizardState'' w
      \<longrightarrow> wizardState state h = Inr (w, h))
   \<and> (has_field h state ''pageState'' ps \<and> lacks_field h ps ''wizardState''
      \<longrightarrow> wizardState state h = Inr (VUndefined, h))
   \<and> (has_field h state ''pageState'' ps \<and> nullish ps
      \<longrightarrow> wizardState state h = Inl TypeError)
   \<and> (lacks_field h state ''pageState'' \<longrightarrow> wizardState state h = Inl TypeError)
   \<and> (nullish state \<longrightarrow> wizardState state h = Inl TypeError)
   \<and> (get_prop state ''pageState'' h = Inl e \<longrightarrow> wizardState state h = Inl e)
   \<and> (get_prop state ''pageState'' h = Inr (p, h') \<and> get_prop p ''wizardState'' h' = Inl e
      \<longrightarrow> wizardState state h = Inl e)"
proof (intro conjI impI)
  assume "has_field h state ''pageState'' ps \<and> has_field h ps ''wizardState'' w"
  then show "wizardState state h = Inr (w, h)"
    by (blast intro: wizardState_field)
next
  assume a: "has_field h state ''pageState'' ps \<and> lacks_field h ps ''wizardState''"
  then have "get_prop state ''pageState'' h = Inr (ps, h)"
    by (blast intro: get_prop_field)
  with a show "wizardState state h = Inr (VUndefined, h)"
    by (simp add: wizardState_def bind_Inr get_prop_lacks)
next
  assume a: "has_field h state ''pageState'' ps \<and> nullish ps"
  then have "get_prop state ''pageState'' h = Inr (ps, h)"
    by (blast intro: get_prop_field)
  with a show "wizardState state h = Inl TypeError"
    by (simp add: wizardState_def bind_Inr get_prop_nullish)
next
  assume "lacks_field h state ''pageState''"
  then have "get_prop state ''pageState'' h = Inr (VUndefined, h)"
    by (rule get_prop_lacks)
  then show "wizardState state h = Inl TypeError"
    by (simp add: wizardState_def bind_Inr get_prop_nullish)
next
  assume "nullish state"
  then show "wizardState state h = Inl TypeError"
    by (simp add: wizardState_def bind_def get_prop_nullish)
next
  assume "get_prop state ''pageState'' h = Inl e"
  then show "wizardState state h = Inl e"
    by (simp add: wizardState_def bind_def)
next
  assume "get_prop state ''pageState'' h = Inr (p, h') \<and> get_prop p ''wizardState'' h' = Inl e"
  then show "wizardState state h = Inl e"
    by (simp add: wizardState_def bind_def)
qed

theorem wizardState_outcome_by_cases_witness:
  "has_field example_heap (VRef 0) ''pageState'' (VRef 1)
   \<and> has_field example_heap (VRef 1) ''wizardState'' (VRef 2)
   \<and> wizardState (VRef 0) example_heap = Inr (VRef 2, example_heap)
   \<and> has_field bare_heap (VRef 0) ''pageState'' (VRef 1)
   \<and> lacks_field bare_heap (VRef 1) ''wizardState''
   \<and> wizardState (VRef 0) bare_heap = Inr (VUndefined, bare_heap)
   \<and> has_field bare_heap (VRef 2) ''pageState'' VNull
   \<and> nullish VNull
   \<and> wizardState (VRef 2) bare_heap = Inl TypeError
   \<and> lacks_field example_heap (VRef 2) ''pageState''
   \<and> wizardState (VRef 2) example_heap = Inl TypeError
   \<and> wizardState VNull example_heap = Inl TypeError
   \<and> get_prop VNull ''pageState'' example_heap = Inl TypeError
   \<and> get_prop (VRef 2) ''pageState'' example_heap = Inr (VUndefined, example_heap)
   \<and> get_prop VUndefined ''wizardState'' example_heap = Inl TypeError"
proof -
  have f: "has_field example_heap (VRef 0) ''pageState'' (VRef 1)"
    "has_field example_heap (VRef 1) ''wizardState'' (VRef 2)"
    "lacks_field example_heap (VRef 2) ''pageState''"
    by (simp_all add: example_heap_def has_field_def lacks_field_def lookup_def)
  have b: "has_field bare_heap (VRef 0) ''pageState'' (VRef 1)"
    "lacks_field bare_heap (VRef 1) ''wizardState''"
    "has_field bare_heap (VRef 2) ''pageState'' VNull"
    by (simp_all add: bare_heap_def has_field_def lacks_field_def lookup_def)
  have g: "get_prop VNull ''pageState'' example_heap = Inl TypeError"
    "get_prop (VRef 2) ''pageState'' example_heap = Inr (VUndefined, example_heap)"
    "get_prop VUndefined ''wizardState'' example_heap = Inl TypeError"
    by (simp_all add: get_prop_def lookup_def example_heap_def)
  have r1: "wizardState (VRef 0) example_heap = Inr (VRef 2, example_heap)"
    using f(1,2) wizardState_outcome_by_cases
      [where h = example_heap and state = "VRef 0" and ps = "VRef 1" and w = "VRef 2"]
    by blast
  have r2: "wizardState (VRef 0) bare_heap = Inr (VUndefined, bare_heap)"
    using b(1,2) wizardState_outcome_by_cases
      [where h = bare_heap and state = "VRef 0" and ps = "VRef 1"]
    by blast
  have n: "nullish VNull" by simp
  have r3: "wizardState (VRef 2) bare_heap = Inl TypeError"
    using b(3) n wizardState_outcome_by_cases
      [where h = bare_heap and state = "VRef 2" and ps = VNull]
    by blast
  have r4: "wizardState (VRef 2) example_heap = Inl TypeError"
    using f(3) wizardState_outcome_by_cases [where h = example_heap and state = "VRef 2"]
    by blast
  have r5: "wizardState VNull example_heap = Inl TypeError"
    using n wizardState_outcome_by_cases [where h = example_heap and state = VNull]
    by blast
  from f b g n r1 r2 r3 r4 r5 show ?thesis by simp
qed

text \<open>
  C4: in a state tree where \<open>state.pageState.wizardState\<close> and its
  \<open>selectedItems.nodes\<close> exist, \<open>selectedNodes(state)\<close> returns the value held by the
  \<open>nodes\<close> field of the \<open>selectedItems\<close> of \<open>wizardState(state)\<close>: the same reference
  when it is an array, and the store is left as it was, so nothing was copied.
\<close>

theorem selectedNodes_is_nodes_field:
  assumes "has_field h state ''pageState'' ps" and "has_field h ps ''wizardState'' w"
    and "has_field h w ''selectedItems'' si" and "has_field h si ''nodes'' ns"
  shows "wizardState state h = Inr (w, h) \<and> selectedNodes state h = Inr (ns, h)"
  using assms by (simp add: selectedNodes_def wizardState_field bind_Inr get_prop_field)

theorem selectedNodes_is_nodes_field_witness:
  "has_field example_heap (VRef 0) ''pageState'' (VRef 1)
   \<and> has_field example_heap (VRef 1) ''wizardState'' (VRef 2)
   \<and> has_field example_heap (VRef 2) ''selectedItems'' (VRef 8)
   \<and> has_field example_heap (VRef 8) ''nodes'' (VRef 9)
   \<and> lookup example_heap 9 = Some (Arr [VStr ''n1'', VStr ''n2''])
   \<and> selectedNodes (VRef 0) example_heap = Inr (VRef 9, example_heap)"
proof -
  have f: "has_field example_heap (VRef 0) ''pageState'' (VRef 1)"
    "has_field example_heap (VRef 1) ''wizardState'' (VRef 2)"
    "has_field example_heap (VRef 2) ''selectedItems'' (VRef 8)"
    "has_field example_heap (VRef 8) ''nodes'' (VRef 9)"
    by (simp_all add: example_heap_def has_field_def lookup_def)
  have "lookup example_heap 9 = Some (Arr [VStr ''n1'', VStr ''n2''])"
    by (simp add: example_heap_def lookup_def)
  with f selectedNodes_is_nodes_field [OF f] show ?thesis by simp
qed

text \<open>
  C8: in a state tree where \<open>state.pageState.wizardState\<close> exists,
  \<open>availableChannels(state)\<close> is the read of \<open>availableChannels\<close> off \<open>wizardState(state)\<close>
  and \<open>installedChannelList(state)\<close> the read of \<open>channelList\<close> off it; where those
  fields exist, the accessors return the values they hold, the store untouched.
\<close>

theorem channel_lists_are_fields:
  assumes "has_field h state ''pageState'' ps" and "has_field h ps ''wizardState'' w"
  shows "wizardState state h = Inr (w, h)
    \<and> availableChannels state h = get_prop w ''availableChannels'' h
    \<and> installedChannelList state h = get_prop w ''channelList'' h
    \<and> (has_field h w ''availableChannels'' ac \<longrightarrow> availableChannels state h = Inr (ac, h))
    \<and> (has_field h w ''channelList'' cl \<longrightarrow> installedChannelList state h = Inr (cl, h))"
  using assms
  by (simp add: availableChannels_def installedChannelList_def wizardState_field bind_Inr
      get_prop_field)

theorem channel_lists_are_fields_witness:
  "has_field example_heap (VRef 0) ''pageState'' (VRef 1)
   \<and> has_field example_heap (VRef 1) ''wizardState'' (VRef 2)
   \<and> has_field example_heap (VRef 2) ''availableChannels'' (VRef 12)
   \<and> has_field example_heap (VRef 2) ''channelList'' (VRef 13)
   \<and> availableChannels (VRef 0) example_heap = Inr (VRef 12, example_heap)
   \<and> installedChannelList (VRef 0) example_heap = Inr (VRef 13, example_heap)"
proof -
  have f: "has_field example_heap (VRef 0) ''pageState'' (VRef 1)"
    "has_field example_heap (VRef 1) ''wizardState'' (VRef 2)"
    by (simp_all add: example_heap_def has_field_def lookup_def)
  have g: "has_field example_heap (VRef 2) ''availableChannels'' (VRef 12)"
    "has_field example_heap (VRef 2) ''channelList'' (VRef 13)"
    by (simp_all add: example_heap_def has_field_def lookup_def)
  from f g channel_lists_are_fields [where ac = "VRef 12" and cl = "VRef 13", OF f]
  show ?thesis by (simp add: get_prop_field)
qed

subsection \<open>The lookup by drive identifier\<close>

text \<open>
  The three properties of the lookup are stated for a state tree of the documented shape:
  \<open>state.pageState.wizardState.driveList\<close> exists and is an array whose entries are
  objects.

  C2: when the first entry, in list order, whose \<open>id\<close> equals \<open>driveId\<close> is \<open>m\<close>, then
  \<open>driveChannelList(state)(driveId)\<close> is \<open>m.metadata.channels\<close>, the value that field holds
  where it exists; in particular when \<open>m\<close> is the only entry of the list whose \<open>id\<close>
  equals \<open>driveId\<close>.
\<close>

theorem driveChannelList_first_match:
  assumes "has_field h state ''pageState'' ps" and "has_field h ps ''wizardState'' w"
    and "has_field h w ''driveList'' (VRef a)" and "lookup h a = Some (Arr ds)"
    and "list_all is_ref ds"
  shows "(first_match h driveId ds = Some m
            \<longrightarrow> driveChannelList state driveId h = channels_of m h)
    \<and> (first_match h driveId ds = Some m
          \<and> has_field h m ''metadata'' md \<and> has_field h md ''channels'' cs
            \<longrightarrow> driveChannelList state driveId h = Inr (cs, h))
    \<and> (m \<in> set ds \<and> has_id h driveId m \<and> (\<forall>d\<in>set ds. has_id h driveId d \<longrightarrow> d = m)
            \<longrightarrow> driveChannelList state driveId h = channels_of m h)"
proof (intro conjI impI)
  assume "first_match h driveId ds = Some m"
  with assms show "driveChannelList state driveId h = channels_of m h"
    by (simp add: driveChannelList_def closure_found)
next
  assume c: "first_match h driveId ds = Some m
    \<and> has_field h m ''metadata'' md \<and> has_field h md ''channels'' cs"
  with assms have "driveChannelList state driveId h = channels_of m h"
    by (simp add: driveChannelList_def closure_found)
  moreover from c have "has_field h m ''metadata'' md" and "has_field h md ''channels'' cs"
    by simp_all
  ultimately show "driveChannelList state driveId h = Inr (cs, h)"
    by (simp add: channels_of_def bind_Inr get_prop_field)
next
  assume u: "m \<in> set ds \<and> has_id h driveId m \<and> (\<forall>d\<in>set ds. has_id h driveId d \<longrightarrow> d = m)"
  then obtain x where x: "first_match h driveId ds = Some x"
    by (cases "first_match h driveId ds") (auto simp: first_match_def find_None_iff)
  then have "x \<in> set ds \<and> has_id h driveId x"
    by (auto simp: first_match_def find_Some_iff)
  with u have "x = m" by blast
  with x assms show "driveChannelList state driveId h = channels_of m h"
    by (simp add: driveChannelList_def closure_found)
qed

theorem driveChannelList_first_match_witness:
  "has_field example_heap (VRef 0) ''pageState'' (VRef 1)
   \<and> has_field example_heap (VRef 1) ''wizardState'' (VRef 2)
   \<and> has_field example_heap (VRef 2) ''driveList'' (VRef 3)
   \<and> lookup example_heap 3 = Some (Arr [VRef 4, VRef 6, VRef 14])
   \<and> list_all is_ref [VRef 4, VRef 6, VRef 14]
   \<and> first_match example_heap (VStr ''b'') [VRef 4, VRef 6, VRef 14] = Some (VRef 6)
   \<and> VRef 6 \<in> set [VRef 4, VRef 6, VRef 14]
   \<and> has_id example_heap (VStr ''b'') (VRef 6)
   \<and> \<not> has_id example_heap (VStr ''b'') (VRef 4)
   \<and> \<not> has_id example_heap (VStr ''b'') (VRef 14)
   \<and> has_field example_heap (VRef 6) ''metadata'' (VRef 7)
   \<and> has_field example_heap (VRef 7) ''channels'' (VRef 11)
   \<and> channels_of (VRef 6) example_heap = Inr (VRef 11, example_heap)
   \<and> lookup example_heap 11 = Some (Arr [VStr ''y'', VStr ''z''])
   \<and> driveChannelList (VRef 0) (VStr ''b'') example_heap = Inr (VRef 11, example_heap)"
proof -
  have f: "has_field example_heap (VRef 0) ''pageState'' (VRef 1)"
    "has_field example_heap (VRef 1) ''wizardState'' (VRef 2)"
    "has_field example_heap (VRef 2) ''driveList'' (VRef 3)"
    "lookup example_heap 3 = Some (Arr [VRef 4, VRef 6, VRef 14])"
    "list_all is_ref [VRef 4, VRef 6, VRef 14]"
    by (simp_all add: example_heap_def has_field_def lookup_def)
  have g: "first_match example_heap (VStr ''b'') [VRef 4, VRef 6, VRef 14] = Some (VRef 6)"
    "has_id example_heap (VStr ''b'') (VRef 6)"
    "\<not> has_id example_heap (VStr ''b'') (VRef 4)"
    "\<not> has_id example_heap (VStr ''b'') (VRef 14)"
    by (simp_all add: first_match_def has_id_def get_prop_def lookup_def example_heap_def
        strict_eq_def)
  have c: "channels_of (VRef 6) example_heap = Inr (VRef 11, example_heap)"
    "lookup example_heap 11 = Some (Arr [VStr ''y'', VStr ''z''])"
    by (simp_all add: channels_of_def bind_def get_prop_def lookup_def example_heap_def)
  have k: "has_field example_heap (VRef 6) ''metadata'' (VRef 7)"
    "has_field example_heap (VRef 7) ''channels'' (VRef 11)"
    by (simp_all add: example_heap_def has_field_def lookup_def)
  from f g c k
    driveChannelList_first_match
      [where driveId = "VStr ''b''" and m = "VRef 6" and md = "VRef 7" and cs = "VRef 11",
       OF f]
  show ?thesis by simp
qed

text \<open>
  C3: when \<open>driveId\<close> equals the \<open>id\<close> of no entry of \<open>driveList\<close>,
  \<open>driveChannelList(state)(driveId)\<close> throws nothing and returns an array without
  elements (a freshly allocated one).
\<close>

theorem driveChannelList_unknown_id:
  assumes "has_field h state ''pageState'' ps" and "has_field h ps ''wizardState'' w"
    and "has_field h w ''driveList'' (VRef a)" and "lookup h a = Some (Arr ds)"
    and "list_all is_ref ds"
    and "\<forall>d\<in>set ds. \<not> has_id h driveId d"
  shows "driveChannelList state driveId h = Inr (VRef (length h), h @ [Arr []])
    \<and> returns_empty (driveChannelList state driveId h)"
proof -
  from assms(6) have "first_match h driveId ds = None"
    by (simp add: first_match_def find_None_iff)
  with assms(1-5) have "driveChannelList state driveId h = Inr (VRef (length h), h @ [Arr []])"
    by (simp add: driveChannelList_def closure_not_found)
  then show ?thesis
    by (simp add: returns_empty_def is_empty_seq_def lookup_def)
qed

theorem driveChannelList_unknown_id_witness:
  "has_field example_heap (VRef 0) ''pageState'' (VRef 1)
   \<and> has_field example_heap (VRef 1) ''wizardState'' (VRef 2)
   \<and> has_field example_heap (VRef 2) ''driveList'' (VRef 3)
   \<and> lookup example_heap 3 = Some (Arr [VRef 4, VRef 6, VRef 14])
   \<and> list_all is_ref [VRef 4, VRef 6, VRef 14]
   \<and> list_all (\<lambda>d. \<not> has_id example_heap (VStr ''c'') d) [VRef 4, VRef 6, VRef 14]
   \<and> driveChannelList (VRef 0) (VStr ''c'') example_heap
       = Inr (VRef 18, example_heap @ [Arr []])
   \<and> returns_empty (driveChannelList (VRef 0) (VStr ''c'') example_heap)"
proof -
  have f: "has_field example_heap (VRef 0) ''pageState'' (VRef 1)"
    "has_field example_heap (VRef 1) ''wizardState'' (VRef 2)"
    "has_field example_heap (VRef 2) ''driveList'' (VRef 3)"
    "lookup example_heap 3 = Some (Arr [VRef 4, VRef 6, VRef 14])"
    "list_all is_ref [VRef 4, VRef 6, VRef 14]"
    by (simp_all add: example_heap_def has_field_def lookup_def)
  have g: "list_all (\<lambda>d. \<not> has_id example_heap (VStr ''c'') d) [VRef 4, VRef 6, VRef 14]"
    by (simp add: has_id_def get_prop_def lookup_def example_heap_def strict_eq_def)
  then have g': "\<forall>d\<in>set [VRef 4, VRef 6, VRef 14]. \<not> has_id example_heap (VStr ''c'') d"
    by simp
  have l: "length example_heap = 18"
    by (simp add: example_heap_def)
  note t = driveChannelList_unknown_id [OF f g']
  from t l have "driveChannelList (VRef 0) (VStr ''c'') example_heap
      = Inr (VRef 18, example_heap @ [Arr []])"
    by simp
  with f g t show ?thesis by blast
qed

text \<open>
  C9: \<open>driveChannelList(state)(driveId)\<close> returns an array without elements if and only
  if no entry's \<open>id\<close> equals \<open>driveId\<close>, or the first entry whose \<open>id\<close> does has an array
  without elements as its \<open>metadata.channels\<close>: the result does not tell the two apart.
\<close>

theorem driveChannelList_empty_iff:
  assumes "has_field h state ''pageState'' ps" and "has_field h ps ''wizardState'' w"
    and "has_field h w ''driveList'' (VRef a)" and "lookup h a = Some (Arr ds)"
    and "list_all is_ref ds"
  shows "returns_empty (driveChannelList state driveId h) \<longleftrightarrow>
    (first_match h driveId ds = None
     \<or> (\<exists>m. first_match h driveId ds = Some m \<and> returns_empty (channels_of m h)))"
proof (cases "first_match h driveId ds")
  case None
  with assms have "driveChannelList state driveId h = Inr (VRef (length h), h @ [Arr []])"
    by (simp add: driveChannelList_def closure_not_found)
  with None show ?thesis
    by (simp add: returns_empty_def is_empty_seq_def lookup_def)
next
  case (Some m)
  with assms have "driveChannelList state driveId h = channels_of m h"
    by (simp add: driveChannelList_def closure_found)
  with Some show ?thesis by simp
qed

theorem driveChannelList_empty_iff_witness:
  "has_field example_heap (VRef 0) ''pageState'' (VRef 1)
   \<and> has_field example_heap (VRef 1) ''wizardState'' (VRef 2)
   \<and> has_field example_heap (VRef 2) ''driveList'' (VRef 3)
   \<and> lookup example_heap 3 = Some (Arr [VRef 4, VRef 6, VRef 14])
   \<and> list_all is_ref [VRef 4, VRef 6, VRef 14]
   \<and> first_match example_heap (VStr ''c'') [VRef 4, VRef 6, VRef 14] = None
   \<and> returns_empty (driveChannelList (VRef 0) (VStr ''c'') example_heap)
   \<and> first_match example_heap (VStr ''e'') [VRef 4, VRef 6, VRef 14] = Some (VRef 14)
   \<and> returns_empty (channels_of (VRef 14) example_heap)
   \<and> returns_empty (driveChannelList (VRef 0) (VStr ''e'') example_heap)
   \<and> first_match example_heap (VStr ''a'') [VRef 4, VRef 6, VRef 14] = Some (VRef 4)
   \<and> \<not> returns_empty (channels_of (VRef 4) example_heap)
   \<and> \<not> returns_empty (driveChannelList (VRef 0) (VStr ''a'') example_heap)"
proof -
  have f: "has_field example_heap (VRef 0) ''pageState'' (VRef 1)"
    "has_field example_heap (VRef 1) ''wizardState'' (VRef 2)"
    "has_field example_heap (VRef 2) ''driveList'' (VRef 3)"
    "lookup example_heap 3 = Some (Arr [VRef 4, VRef 6, VRef 14])"
    "list_all is_ref [VRef 4, VRef 6, VRef 14]"
    by (simp_all add: example_heap_def has_field_def lookup_def)
  have g: "first_match example_heap (VStr ''c'') [VRef 4, VRef 6, VRef 14] = None"
    "first_match example_heap (VStr ''e'') [VRef 4, VRef 6, VRef 14] = Some (VRef 14)"
    "first_match example_heap (VStr ''a'') [VRef 4, VRef 6, VRef 14] = Some (VRef 4)"
    by (simp_all add: first_match_def has_id_def get_prop_def lookup_def example_heap_def
        strict_eq_def)
  have c: "returns_empty (channels_of (VRef 14) example_heap)"
    "\<not> returns_empty (channels_of (VRef 4) example_heap)"
    by (simp_all add: returns_empty_def is_empty_seq_def channels_of_def bind_def
        get_prop_def lookup_def example_heap_def)
  from f g c
    driveChannelList_empty_iff [where driveId = "VStr ''c''", OF f]
    driveChannelList_empty_iff [where driveId = "VStr ''e''", OF f]
    driveChannelList_empty_iff [where driveId = "VStr ''a''", OF f]
  show ?thesis by simp
qed

subsection \<open>Effects on the store and repeated invocation\<close>

lemma get_prop_append:
  "valid h v \<Longrightarrow>
   get_prop v p (h @ e) = (case get_prop v p h of Inl x \<Rightarrow> Inl x | Inr (x, _) \<Rightarrow> Inr (x, h @ e))"
  by (cases v) (auto simp: get_prop_def lookup_def nth_append split: option.splits obj.splits)

lemma heap_ok_cell:
  "heap_ok h \<Longrightarrow> a < length h \<Longrightarrow> x \<in> set (obj_vals (h ! a)) \<Longrightarrow> valid h x"
  by (auto simp: heap_ok_def list_all_iff)

lemma get_prop_valid:
  assumes "heap_ok h" and "get_prop v p h = Inr (x, h')"
  shows "valid h x"
proof (cases "\<exists>a fs. v = VRef a \<and> a < length h \<and> h ! a = Obj fs \<and> map_of fs p = Some x")
  case True
  then obtain a fs where a: "a < length h" "h ! a = Obj fs" "map_of fs p = Some x"
    by blast
  then have "x \<in> set (obj_vals (h ! a))"
    by (auto dest: map_of_SomeD intro: rev_image_eqI)
  with assms(1) a(1) show ?thesis by (rule heap_ok_cell)
next
  case False
  with assms(2) have "x = VUndefined"
    by (auto simp: get_prop_def lookup_def split: val.splits option.splits obj.splits if_splits)
  then show ?thesis by simp
qed

lemma id_equals_append:
  "valid h d \<Longrightarrow>
   id_equals driveId d (h @ e) =
     (case id_equals driveId d h of Inl x \<Rightarrow> Inl x | Inr (r, _) \<Rightarrow> Inr (r, h @ e))"
  by (simp add: id_equals_def bind_def get_prop_append ret_def split: sum.splits prod.splits)

lemma id_equals_store: "id_equals driveId d h = Inr (r, h') \<Longrightarrow> h' = h"
  by (auto simp: id_equals_def bind_def ret_def split: sum.splits dest: get_prop_store)

lemma find_loop_store: "find_loop (id_equals driveId) ds h = Inr (m, h') \<Longrightarrow> h' = h"
  by (induction ds) (auto split: sum.splits if_splits dest: id_equals_store)

lemma find_loop_append:
  "list_all (valid h) ds \<Longrightarrow>
   find_loop (id_equals driveId) ds (h @ e) =
     (case find_loop (id_equals driveId) ds h of
        Inl x \<Rightarrow> Inl x | Inr (m, _) \<Rightarrow> Inr (m, h @ e))"
proof (induction ds)
  case Nil
  then show ?case by simp
next
  case (Cons d ds)
  then have d: "valid h d" and ds: "list_all (valid h) ds" by simp_all
  show ?case
  proof (cases "id_equals driveId d h")
    case (Inl x)
    with d show ?thesis by (simp add: id_equals_append)
  next
    case (Inr rh)
    then obtain r where r: "id_equals driveId d h = Inr (r, h)"
      by (cases rh) (auto dest: id_equals_store)
    with d Cons.IH [OF ds] show ?thesis by (simp add: id_equals_append)
  qed
qed


lemma closure_match_of:
  "getListByDriveId state driveId h =
     (case match_of state driveId h of
        Inl x \<Rightarrow> Inl x
      | Inr (m, h') \<Rightarrow> if truthy m then channels_of m h' else new_array [] h')"
  by (simp add: getListByDriveId_def match_of_def channels_of_def bind_def
      split: sum.splits prod.splits)

lemma call_find_store: "call_find v (id_equals driveId) h = Inr (m, h') \<Longrightarrow> h' = h"
  by (auto simp: call_find_def split: val.splits option.splits obj.splits
      dest: find_loop_store)

lemma match_of_store: "match_of state driveId h = Inr (m, h') \<Longrightarrow> h' = h"
  by (auto simp: match_of_def bind_def split: sum.splits
      dest!: wizardState_store get_prop_store call_find_store)

lemma channels_of_store: "channels_of m h = Inr (c, h') \<Longrightarrow> h' = h"
  by (auto simp: channels_of_def bind_def split: sum.splits dest!: get_prop_store)

lemma call_find_append:
  assumes "heap_ok h" and "valid h v"
  shows "call_find v (id_equals driveId) (h @ e) =
     (case call_find v (id_equals driveId) h of
        Inl x \<Rightarrow> Inl x | Inr (m, _) \<Rightarrow> Inr (m, h @ e))"
proof (cases "\<exists>a ds. v = VRef a \<and> lookup h a = Some (Arr ds)")
  case True
  then obtain a ds where v: "v = VRef a" and l: "lookup h a = Some (Arr ds)" by blast
  from l have a: "a < length h" "h ! a = Arr ds"
    by (auto simp: lookup_def split: if_splits)
  with assms(1) have "list_all (valid h) ds"
    by (auto simp: list_all_iff intro: heap_ok_cell)
  with v a show ?thesis
    by (simp add: call_find_def lookup_def nth_append find_loop_append)
next
  case False
  with assms(2) show ?thesis
    by (cases v) (auto simp: call_find_def lookup_def nth_append split: option.splits obj.splits)
qed

lemma match_of_append:
  assumes "heap_ok h" and "valid h state"
  shows "match_of state driveId (h @ e) =
     (case match_of state driveId h of Inl x \<Rightarrow> Inl x | Inr (m, _) \<Rightarrow> Inr (m, h @ e))"
proof (cases "get_prop state ''pageState'' h")
  case (Inl x)
  with assms(2) show ?thesis
    by (simp add: match_of_def wizardState_def bind_def get_prop_append)
next
  case (Inr r1)
  then obtain ps where ps: "get_prop state ''pageState'' h = Inr (ps, h)"
    by (cases r1) (auto dest: get_prop_store)
  with assms(1) have vps: "valid h ps" by (rule get_prop_valid)
  show ?thesis
  proof (cases "get_prop ps ''wizardState'' h")
    case (Inl x)
    with assms(2) ps vps show ?thesis
      by (simp add: match_of_def wizardState_def bind_def get_prop_append)
  next
    case (Inr r2)
    then obtain w where w: "get_prop ps ''wizardState'' h = Inr (w, h)"
      by (cases r2) (auto dest: get_prop_store)
    with assms(1) have vw: "valid h w" by (rule get_prop_valid)
    show ?thesis
    proof (cases "get_prop w ''driveList'' h")
      case (Inl x)
      with assms(2) ps vps w vw show ?thesis
        by (simp add: match_of_def wizardState_def bind_def get_prop_append)
    next
      case (Inr r3)
      then obtain dl where dl: "get_prop w ''driveList'' h = Inr (dl, h)"
        by (cases r3) (auto dest: get_prop_store)
      with assms(1) have vdl: "valid h dl" by (rule get_prop_valid)
      from assms ps vps w vw dl call_find_append [OF assms(1) vdl] show ?thesis
        by (simp add: match_of_def wizardState_def bind_def get_prop_append)
    qed
  qed
qed

lemma same_outcome_refl: "same_outcome r r"
  by (auto simp: same_outcome_def split: sum.splits)

lemma unchanged_repeatable: "unchanged m h \<Longrightarrow> repeatable m h"
  by (auto simp: unchanged_def repeatable_def same_outcome_refl split: sum.splits)

lemma unchanged_wizardState: "unchanged (wizardState state) h"
  by (auto simp: unchanged_def split: sum.splits dest: wizardState_store)

lemma unchanged_selectedNodes: "unchanged (selectedNodes state) h"
  by (auto simp: unchanged_def selectedNodes_def bind_def split: sum.splits
      dest!: wizardState_store get_prop_store)

lemma unchanged_availableChannels: "unchanged (availableChannels state) h"
  by (auto simp: unchanged_def availableChannels_def bind_def split: sum.splits
      dest!: wizardState_store get_prop_store)

lemma unchanged_installedChannelList: "unchanged (installedChannelList state) h"
  by (auto simp: unchanged_def installedChannelList_def bind_def split: sum.splits
      dest!: wizardState_store get_prop_store)

lemma closure_outcome:
  "(\<exists>x. getListByDriveId state driveId h = Inl x)
   \<or> (\<exists>c. getListByDriveId state driveId h = Inr (c, h))
   \<or> (getListByDriveId state driveId h = Inr (VRef (length h), h @ [Arr []])
      \<and> (\<exists>m. match_of state driveId h = Inr (m, h) \<and> \<not> truthy m))"
proof (cases "match_of state driveId h")
  case (Inl x)
  then show ?thesis by (simp add: closure_match_of)
next
  case (Inr r)
  then obtain m where m: "match_of state driveId h = Inr (m, h)"
    by (cases r) (auto dest: match_of_store)
  show ?thesis
  proof (cases "truthy m")
    case True
    with m have "getListByDriveId state driveId h = channels_of m h"
      by (simp add: closure_match_of)
    then show ?thesis
      by (cases "channels_of m h") (auto dest: channels_of_store)
  next
    case False
    with m show ?thesis by (simp add: closure_match_of new_array_def)
  qed
qed

lemma preserved_closure: "preserved (getListByDriveId state driveId) h"
  using closure_outcome [of state driveId h]
  by (auto simp: preserved_def)

lemma repeatable_closure:
  assumes "heap_ok h" and "valid h state"
  shows "repeatable (getListByDriveId state driveId) h"
proof -
  consider (thrown) x where "getListByDriveId state driveId h = Inl x"
    | (found) c where "getListByDriveId state driveId h = Inr (c, h)"
    | (fresh) m where "getListByDriveId state driveId h = Inr (VRef (length h), h @ [Arr []])"
        "match_of state driveId h = Inr (m, h)" "\<not> truthy m"
    using closure_outcome [of state driveId h] by blast
  then show ?thesis
  proof cases
    case thrown
    then show ?thesis by (simp add: repeatable_def)
  next
    case found
    then show ?thesis by (simp add: repeatable_def same_outcome_refl)
  next
    case fresh
    from fresh(2) have "match_of state driveId (h @ [Arr []]) = Inr (m, h @ [Arr []])"
      by (simp add: match_of_append [OF assms])
    with fresh(3) have "getListByDriveId state driveId (h @ [Arr []])
        = Inr (VRef (Suc (length h)), h @ [Arr [], Arr []])"
      by (simp add: closure_match_of new_array_def)
    with fresh(1) show ?thesis
      by (simp add: repeatable_def same_outcome_def is_empty_seq_def lookup_def nth_append)
  qed
qed

text \<open>
  C7: each accessor is a function of the state and the store it runs on, so equal inputs
  give equal outcomes. Beyond that: \<open>wizardState\<close>, \<open>selectedNodes\<close>, \<open>availableChannels\<close>
  and \<open>installedChannelList\<close> return the very store they were given, and a second
  invocation has the same outcome. The closure of \<open>driveChannelList\<close> leaves every
  existing cell as it was (it may allocate the empty array it returns), and in a store
  without dangling references a second invocation, on the store the first one left, has
  the same outcome: the same value, or again an array without elements.
\<close>

theorem accessors_read_only_and_repeatable:
  "unchanged (wizardState state) h \<and> repeatable (wizardState state) h
   \<and> unchanged (selectedNodes state) h \<and> repeatable (selectedNodes state) h
   \<and> unchanged (availableChannels state) h \<and> repeatable (availableChannels state) h
   \<and> unchanged (installedChannelList state) h \<and> repeatable (installedChannelList state) h
   \<and> preserved (driveChannelList state driveId) h
   \<and> (heap_ok h \<and> valid h state \<longrightarrow> repeatable (driveChannelList state driveId) h)"
  by (simp add: unchanged_wizardState unchanged_selectedNodes unchanged_availableChannels
      unchanged_installedChannelList unchanged_repeatable driveChannelList_def
      preserved_closure repeatable_closure)

theorem accessors_read_only_and_repeatable_witness:
  "heap_ok example_heap \<and> valid example_heap (VRef 0)
   \<and> repeatable (driveChannelList (VRef 0) (VStr ''c'')) example_heap
   \<and> driveChannelList (VRef 0) (VStr ''c'') example_heap
       = Inr (VRef 18, example_heap @ [Arr []])
   \<and> driveChannelList (VRef 0) (VStr ''c'') (example_heap @ [Arr []])
       = Inr (VRef 19, example_heap @ [Arr [], Arr []])
   \<and> preserved (driveChannelList (VRef 0) (VStr ''c'')) example_heap
   \<and> unchanged (selectedNodes (VRef 0)) example_heap
   \<and> selectedNodes (VRef 0) example_heap = Inr (VRef 9, example_heap)"
proof -
  have ok: "heap_ok example_heap \<and> valid example_heap (VRef 0)"
    by (simp add: heap_ok_def example_heap_def)
  have run: "driveChannelList (VRef 0) (VStr ''c'') example_heap
        = Inr (VRef 18, example_heap @ [Arr []])"
    "driveChannelList (VRef 0) (VStr ''c'') (example_heap @ [Arr []])
        = Inr (VRef 19, example_heap @ [Arr [], Arr []])"
    "selectedNodes (VRef 0) example_heap = Inr (VRef 9, example_heap)"
    by (simp_all add: driveChannelList_def getListByDriveId_def selectedNodes_def
        wizardState_def bind_def get_prop_def lookup_def call_find_def id_equals_def ret_def
        strict_eq_def new_array_def example_heap_def)
  note t = accessors_read_only_and_repeatable
    [where h = example_heap and state = "VRef 0" and driveId = "VStr ''c''"]
  from ok run t show ?thesis by blast
qed


subsection \<open>What the accessors read\<close>

lemma transfers_Inl: "transfers S h1 h2 m \<Longrightarrow> m h1 = Inl e \<Longrightarrow> m h2 = Inl e"
  by (simp add: transfers_def)

lemma transfers_Inr:
  "transfers S h1 h2 m \<Longrightarrow> m h1 = Inr (x, h') \<Longrightarrow> h' = h1 \<and> refs_in S x \<and> m h2 = Inr (x, h2)"
  by (simp add: transfers_def)

lemma transfers_result:
  "transfers S h1 h2 m \<Longrightarrow> result_of (m h1) = result_of (m h2) \<and> result_in S (m h1)"
  by (auto simp: transfers_def result_of_def result_in_def split: sum.splits)

lemma closed_in_cell:
  "closed_in h S \<Longrightarrow> a \<in> set S \<Longrightarrow> a < length h \<and> (\<forall>x\<in>set (obj_vals (h ! a)). refs_in S x)"
  by (auto simp: closed_in_def list_all_iff)

lemma agree_on_cell: "agree_on h1 h2 S \<Longrightarrow> a \<in> set S \<Longrightarrow> lookup h2 a = lookup h1 a"
  by (auto simp: agree_on_def list_all_iff)

lemma transfers_get_prop:
  assumes "closed_in h1 S" and "agree_on h1 h2 S" and "refs_in S v"
  shows "transfers S h1 h2 (get_prop v p)"
proof (cases "\<exists>a fs x. v = VRef a \<and> lookup h1 a = Some (Obj fs) \<and> map_of fs p = Some x")
  case True
  then obtain a fs x where v: "v = VRef a" and l: "lookup h1 a = Some (Obj fs)"
    and x: "map_of fs p = Some x" by blast
  from assms(3) v have a: "a \<in> set S" by (simp add: refs_in_def)
  from l have c: "a < length h1" "h1 ! a = Obj fs"
    by (auto simp: lookup_def split: if_splits)
  from x c have "x \<in> set (obj_vals (h1 ! a))"
    by (auto dest: map_of_SomeD intro: rev_image_eqI)
  with closed_in_cell [OF assms(1) a] have "refs_in S x" by blast
  moreover from agree_on_cell [OF assms(2) a] l have "lookup h2 a = Some (Obj fs)" by simp
  ultimately show ?thesis
    using v l x by (simp add: transfers_def get_prop_def)
next
  case False
  show ?thesis
  proof (cases v)
    case (VRef a)
    with assms(3) have a: "a \<in> set S" by (simp add: refs_in_def)
    from agree_on_cell [OF assms(2) a] False VRef show ?thesis
      by (auto simp: transfers_def get_prop_def refs_in_def split: option.splits obj.splits)
  qed (simp_all add: transfers_def get_prop_def refs_in_def)
qed

lemma transfers_bind:
  assumes "transfers S h1 h2 m" and "\<And>x. refs_in S x \<Longrightarrow> transfers S h1 h2 (f x)"
  shows "transfers S h1 h2 (bind m f)"
proof (cases "m h1")
  case (Inl e)
  with assms(1) show ?thesis
    by (simp add: transfers_def bind_def)
next
  case (Inr r)
  obtain x h' where r: "r = (x, h')" by (cases r)
  with Inr transfers_Inr [OF assms(1)] have m: "m h1 = Inr (x, h1)" "refs_in S x"
    "m h2 = Inr (x, h2)" by auto
  from assms(2) [OF m(2)] m(1,3) show ?thesis
    by (auto simp: transfers_def bind_def split: sum.splits)
qed

lemma transfers_id_equals:
  assumes "closed_in h1 S" and "agree_on h1 h2 S" and "refs_in S d"
  shows "transfers S h1 h2 (id_equals driveId d)"
  unfolding id_equals_def
  by (rule transfers_bind [OF transfers_get_prop [OF assms]])
    (simp add: transfers_def ret_def refs_in_def)

lemma transfers_find_loop:
  assumes "closed_in h1 S" and "agree_on h1 h2 S"
  shows "list_all (refs_in S) ds \<Longrightarrow> transfers S h1 h2 (find_loop (id_equals driveId) ds)"
proof (induction ds)
  case Nil
  then show ?case by (simp add: transfers_def refs_in_def)
next
  case (Cons d ds)
  then have d: "refs_in S d" and ds: "list_all (refs_in S) ds" by simp_all
  note t = transfers_id_equals [OF assms d, of driveId]
  show ?case
  proof (cases "id_equals driveId d h1")
    case (Inl e)
    with transfers_Inl [OF t] show ?thesis by (simp add: transfers_def)
  next
    case (Inr r)
    obtain x h' where r: "r = (x, h')" by (cases r)
    with Inr transfers_Inr [OF t] have m: "id_equals driveId d h1 = Inr (x, h1)"
      "id_equals driveId d h2 = Inr (x, h2)" by auto
    with d Cons.IH [OF ds] show ?thesis
      by (auto simp: transfers_def split: sum.splits)
  qed
qed

lemma transfers_call_find:
  assumes "closed_in h1 S" and "agree_on h1 h2 S" and "refs_in S v"
  shows "transfers S h1 h2 (call_find v (id_equals driveId))"
proof (cases v)
  case (VRef a)
  with assms(3) have a: "a \<in> set S" by (simp add: refs_in_def)
  note l = agree_on_cell [OF assms(2) a]
  show ?thesis
  proof (cases "\<exists>ds. lookup h1 a = Some (Arr ds)")
    case True
    then obtain ds where ds: "lookup h1 a = Some (Arr ds)" by blast
    then have "h1 ! a = Arr ds" by (auto simp: lookup_def split: if_splits)
    with closed_in_cell [OF assms(1) a] have "list_all (refs_in S) ds"
      by (simp add: list_all_iff)
    from transfers_find_loop [OF assms(1,2) this, of driveId] ds l VRef show ?thesis
      by (auto simp: transfers_def call_find_def split: sum.splits)
  next
    case False
    with l VRef show ?thesis
      by (auto simp: transfers_def call_find_def split: option.splits obj.splits)
  qed
qed (simp_all add: transfers_def call_find_def)

lemma through_wizardState:
  assumes "result_of (wizardState s1 h1) = result_of (wizardState s2 h2)"
    and "result_in S (wizardState s1 h1)"
    and "\<And>w. refs_in S w \<Longrightarrow> transfers S h1 h2 (k w)"
  shows "case bind (wizardState s1) k h1 of
      Inl e \<Rightarrow> bind (wizardState s2) k h2 = Inl e
    | Inr (x, h') \<Rightarrow> h' = h1 \<and> refs_in S x \<and> bind (wizardState s2) k h2 = Inr (x, h2)"
proof (cases "wizardState s1 h1")
  case (Inl e)
  with assms(1) have "wizardState s2 h2 = Inl e"
    by (auto simp: result_of_def split: sum.splits)
  with Inl show ?thesis by (simp add: bind_def)
next
  case (Inr r)
  obtain w h' where r: "r = (w, h')" by (cases r)
  with Inr have w1: "wizardState s1 h1 = Inr (w, h1)"
    by (auto dest: wizardState_store)
  with assms(1) obtain h'' where "wizardState s2 h2 = Inr (w, h'')"
    by (auto simp: result_of_def split: sum.splits)
  then have w2: "wizardState s2 h2 = Inr (w, h2)"
    by (auto dest: wizardState_store)
  from assms(2) w1 have "refs_in S w" by (simp add: result_in_def)
  from assms(3) [OF this] w1 w2 show ?thesis
    by (auto simp: transfers_def bind_def split: sum.splits)
qed

lemma through_result:
  assumes "case r1 of
      Inl e \<Rightarrow> r2 = Inl e
    | Inr (x, h') \<Rightarrow> h' = h1 \<and> refs_in S x \<and> r2 = Inr (x, h2)"
  shows "result_of r1 = result_of r2 \<and> result_in S r1"
  using assms by (auto simp: result_of_def result_in_def split: sum.splits)

text \<open>
  C10: take two states, each a root in a store of its own, that agree on
  \<open>state.pageState.wizardState\<close>: \<open>wizardState\<close> throws the same error on both, or returns
  the same value on both and the two stores hold the same in every cell of the subtree
  under it. Whatever else the stores hold, the roots and the page states included,
  \<open>selectedNodes\<close>, \<open>availableChannels\<close> and \<open>installedChannelList\<close> then throw the same
  error or return the same value, a value of that subtree; and for every drive
  identifier so does the closure of \<open>driveChannelList\<close>, or it returns a fresh array
  without elements on both.
\<close>

theorem accessors_read_wizardState_subtree_only:
  assumes "result_of (wizardState s1 h1) = result_of (wizardState s2 h2)"
    and "result_in S (wizardState s1 h1)"
    and "closed_in h1 S" and "agree_on h1 h2 S"
  shows "result_of (selectedNodes s1 h1) = result_of (selectedNodes s2 h2)
    \<and> result_in S (selectedNodes s1 h1)
    \<and> result_of (availableChannels s1 h1) = result_of (availableChannels s2 h2)
    \<and> result_in S (availableChannels s1 h1)
    \<and> result_of (installedChannelList s1 h1) = result_of (installedChannelList s2 h2)
    \<and> result_in S (installedChannelList s1 h1)
    \<and> same_outcome (driveChannelList s1 driveId h1) (driveChannelList s2 driveId h2)
    \<and> (result_in S (driveChannelList s1 driveId h1)
        \<or> returns_empty (driveChannelList s1 driveId h1)
          \<and> returns_empty (driveChannelList s2 driveId h2))"
proof -
  note gp = transfers_get_prop [OF assms(3,4)]
  have sel: "result_of (selectedNodes s1 h1) = result_of (selectedNodes s2 h2)
      \<and> result_in S (selectedNodes s1 h1)"
    unfolding selectedNodes_def
    by (rule through_result, rule through_wizardState [OF assms(1,2)])
      (rule transfers_bind [OF gp gp])
  have av: "result_of (availableChannels s1 h1) = result_of (availableChannels s2 h2)
      \<and> result_in S (availableChannels s1 h1)"
    unfolding availableChannels_def
    by (rule through_result, rule through_wizardState [OF assms(1,2)]) (rule gp)
  have inst: "result_of (installedChannelList s1 h1) = result_of (installedChannelList s2 h2)
      \<and> result_in S (installedChannelList s1 h1)"
    unfolding installedChannelList_def
    by (rule through_result, rule through_wizardState [OF assms(1,2)]) (rule gp)
  have mt: "case match_of s1 driveId h1 of
      Inl e \<Rightarrow> match_of s2 driveId h2 = Inl e
    | Inr (x, h') \<Rightarrow> h' = h1 \<and> refs_in S x \<and> match_of s2 driveId h2 = Inr (x, h2)"
    unfolding match_of_def
    by (rule through_wizardState [OF assms(1,2)])
      (rule transfers_bind [OF gp transfers_call_find [OF assms(3,4)]])
  have cl: "same_outcome (getListByDriveId s1 driveId h1) (getListByDriveId s2 driveId h2)
      \<and> (result_in S (getListByDriveId s1 driveId h1)
        \<or> returns_empty (getListByDriveId s1 driveId h1)
          \<and> returns_empty (getListByDriveId s2 driveId h2))"
  proof (cases "match_of s1 driveId h1")
    case (Inl e)
    with mt show ?thesis
      by (simp add: closure_match_of same_outcome_def result_in_def)
  next
    case (Inr r)
    obtain m h' where r: "r = (m, h')" by (cases r)
    with Inr mt have m: "match_of s1 driveId h1 = Inr (m, h1)" "refs_in S m"
      "match_of s2 driveId h2 = Inr (m, h2)" by auto
    show ?thesis
    proof (cases "truthy m")
      case True
      have "transfers S h1 h2 (channels_of m)"
        unfolding channels_of_def by (rule transfers_bind [OF gp gp]) (rule m(2))
      with m True show ?thesis
        by (auto simp: closure_match_of transfers_def same_outcome_def result_in_def
            split: sum.splits)
    next
      case False
      with m show ?thesis
        by (simp add: closure_match_of new_array_def same_outcome_def returns_empty_def
            is_empty_seq_def lookup_def)
    qed
  qed
  from sel av inst cl show ?thesis
    by (simp add: driveChannelList_def)
qed


theorem accessors_read_wizardState_subtree_only_witness:
  "lookup example_heap 0 \<noteq> lookup example_heap2 0
   \<and> result_of (wizardState (VRef 0) example_heap) = Inr (VRef 2)
   \<and> result_of (wizardState (VRef 0) example_heap2) = Inr (VRef 2)
   \<and> result_in wizard_cells (wizardState (VRef 0) example_heap)
   \<and> closed_in example_heap wizard_cells
   \<and> agree_on example_heap example_heap2 wizard_cells
   \<and> result_of (selectedNodes (VRef 0) example_heap2) = Inr (VRef 9)
   \<and> result_of (selectedNodes (VRef 0) example_heap)
       = result_of (selectedNodes (VRef 0) example_heap2)
   \<and> result_of (availableChannels (VRef 0) example_heap)
       = result_of (availableChannels (VRef 0) example_heap2)
   \<and> result_of (installedChannelList (VRef 0) example_heap)
       = result_of (installedChannelList (VRef 0) example_heap2)
   \<and> same_outcome (driveChannelList (VRef 0) (VStr ''b'') example_heap)
         (driveChannelList (VRef 0) (VStr ''b'') example_heap2)
   \<and> result_in wizard_cells (driveChannelList (VRef 0) (VStr ''b'') example_heap)"
proof -
  have d: "lookup example_heap 0 \<noteq> lookup example_heap2 0"
    by (simp add: lookup_def example_heap2_def example_heap_def)
  have w: "result_of (wizardState (VRef 0) example_heap) = Inr (VRef 2)"
    "result_of (wizardState (VRef 0) example_heap2) = Inr (VRef 2)"
    "result_in wizard_cells (wizardState (VRef 0) example_heap)"
    by (simp_all add: result_of_def result_in_def refs_in_def wizard_cells_def
        wizardState_def bind_def get_prop_def lookup_def example_heap2_def example_heap_def)
  then have e: "result_of (wizardState (VRef 0) example_heap)
      = result_of (wizardState (VRef 0) example_heap2)"
    by simp
  have c: "closed_in example_heap wizard_cells"
    by (simp add: closed_in_def refs_in_def wizard_cells_def example_heap_def)
  have a: "agree_on example_heap example_heap2 wizard_cells"
    by (simp add: agree_on_def lookup_def wizard_cells_def example_heap2_def example_heap_def)
  have s: "result_of (selectedNodes (VRef 0) example_heap2) = Inr (VRef 9)"
    by (simp add: result_of_def selectedNodes_def wizardState_def bind_def get_prop_def
        lookup_def example_heap2_def example_heap_def)
  have b: "result_in wizard_cells (driveChannelList (VRef 0) (VStr ''b'') example_heap)"
    by (simp add: result_in_def refs_in_def wizard_cells_def driveChannelList_def
        getListByDriveId_def wizardState_def bind_def get_prop_def lookup_def call_find_def
        id_equals_def ret_def strict_eq_def example_heap_def)
  note t = accessors_read_wizardState_subtree_only [OF e w(3) c a, of "VStr ''b''"]
  from d w c a s b t show ?thesis by simp
qed

end
